theory Spec2Isabelle
  imports Complex_Main "HOL-Library.AList"
begin

section \<open>Python values and exceptions\<close>

text \<open>
  The workflow of \<^verbatim>\<open>train_ner_workflow.py\<close> works on what \<^verbatim>\<open>json.loads\<close> returns:
  dictionaries, lists, strings, integers, booleans and \<^verbatim>\<open>None\<close>. A dictionary is an
  association list in insertion order, which is the order Python iterates it in. Number
  literals with a fraction or an exponent, which Python reads as floats, are outside this
  model.
\<close>

datatype json =
    JNull
  | JBool bool
  | JInt int
  | JStr string
  | JArr "json list"
  | JObj "(string \<times> json) list"

text \<open>
  Every exception of the source is a value. \<open>External\<close> stands for whatever a
  collaborator outside this file raises (object storage, the file system, spaCy).
\<close>

datatype error =
    TypeError
  | KeyError
  | IndexError
  | RuntimeError
  | ZeroDivisionError
  | UnboundLocalError
  | JSONDecodeError
  | External string

text \<open>\<^verbatim>\<open>obj[key]\<close> with a string key: only a dictionary accepts it.\<close>

fun getitem_str :: "json \<Rightarrow> string \<Rightarrow> error + json" where
  "getitem_str (JObj kvs) k = (case map_of kvs k of None \<Rightarrow> Inl KeyError | Some v \<Rightarrow> Inr v)"
| "getitem_str _ k = Inl TypeError"

text \<open>
  \<^verbatim>\<open>obj[0]\<close>: the first element of a list or the first character of a string, an
  IndexError when it is empty; a dictionary read from JSON has string keys only, so the
  key \<open>0\<close> is a KeyError.
\<close>

fun getitem_0 :: "json \<Rightarrow> error + json" where
  "getitem_0 (JArr xs) = (case xs of [] \<Rightarrow> Inl IndexError | x # _ \<Rightarrow> Inr x)"
| "getitem_0 (JStr s) = (case s of [] \<Rightarrow> Inl IndexError | c # _ \<Rightarrow> Inr (JStr [c]))"
| "getitem_0 (JObj kvs) = Inl KeyError"
| "getitem_0 _ = Inl TypeError"

text \<open>
  \<^verbatim>\<open>for x in obj\<close>: a list gives its elements, a dictionary its keys, a string its
  characters; nothing else is iterable.
\<close>

fun iter :: "json \<Rightarrow> error + json list" where
  "iter (JArr xs) = Inr xs"
| "iter (JObj kvs) = Inr (map (\<lambda>kv. JStr (fst kv)) kvs)"
| "iter (JStr s) = Inr (map (\<lambda>c. JStr [c]) s)"
| "iter _ = Inl TypeError"

text \<open>
  Python's \<^verbatim>\<open>==\<close>: dictionaries are equal when they have the same keys with equal values,
  in any order; lists are compared element by element, in order; \<^verbatim>\<open>True\<close> and \<^verbatim>\<open>False\<close>
  are the integers 1 and 0.
\<close>

fun py_eq :: "json \<Rightarrow> json \<Rightarrow> bool" where
  "py_eq JNull y = (y = JNull)"
| "py_eq (JBool a) y =
     (case y of JBool b \<Rightarrow> a = b | JInt n \<Rightarrow> n = (if a then 1 else 0) | _ \<Rightarrow> False)"
| "py_eq (JInt m) y =
     (case y of JInt n \<Rightarrow> m = n | JBool b \<Rightarrow> m = (if b then 1 else 0) | _ \<Rightarrow> False)"
| "py_eq (JStr s) y = (y = JStr s)"
| "py_eq (JArr xs) y = (case y of JArr ys \<Rightarrow> list_all2 py_eq xs ys | _ \<Rightarrow> False)"
| "py_eq (JObj a) y =
     (case y of
        JObj b \<Rightarrow>
          length a = length b \<and>
          list_all (\<lambda>kv. case map_of b (fst kv) of None \<Rightarrow> False | Some w \<Rightarrow> py_eq (snd kv) w) a
      | _ \<Rightarrow> False)"


section \<open>The accuracy evaluator\<close>

text \<open>
  What \<^verbatim>\<open>evaluate_ner\<close> can be called with: the bytes that \<^verbatim>\<open>load_tasks\<close> returns, or the
  list of dictionaries its annotation and docstring announce.
\<close>

datatype pyarg = PyBytes string | PyList "json list"

text \<open>
  \<^verbatim>\<open>json.loads\<close> is a library function: the reader of a text is the parameter \<open>loads\<close>.
  Given anything but text it raises a TypeError.
\<close>

fun json_loads :: "(string \<Rightarrow> error + json) \<Rightarrow> pyarg \<Rightarrow> error + json" where
  "json_loads loads (PyBytes s) = loads s"
| "json_loads loads (PyList xs) = Inl TypeError"

text \<open>\<^verbatim>\<open>len(tasks)\<close>: the number of bytes of a text, the number of elements of a list.\<close>

fun len :: "pyarg \<Rightarrow> nat" where
  "len (PyBytes s) = length s"
| "len (PyList xs) = length xs"

text \<open>\<^verbatim>\<open>d.pop(k)\<close> removes the key, and raises a KeyError when it is not there.\<close>

definition dict_pop :: "string \<Rightarrow> (string \<times> json) list \<Rightarrow> error + (string \<times> json) list" where
  "dict_pop k d = (if k \<in> fst ` set d then Inr (AList.delete k d) else Inl KeyError)"

text \<open>
  \<^verbatim>\<open>for key in annotation_result: if key == "id": annotation_result.pop("id")\<close> on a
  dictionary. The iterator remembers the size the dictionary had when the loop began
  (\<open>used\<close>) and compares it with the current size each time it is asked for the next key,
  also the time it would report the end: a different size is a RuntimeError
  (dictionary changed size during iteration). \<open>keys\<close> are the keys still to visit.
\<close>

fun strip_id_dict ::
  "nat \<Rightarrow> string list \<Rightarrow> (string \<times> json) list \<Rightarrow> error + (string \<times> json) list" where
  "strip_id_dict used [] d = (if length d \<noteq> used then Inl RuntimeError else Inr d)"
| "strip_id_dict used (key # keys) d =
     (if length d \<noteq> used then Inl RuntimeError
      else if key = ''id'' then
        (case dict_pop ''id'' d of Inl e \<Rightarrow> Inl e | Inr d' \<Rightarrow> strip_id_dict used keys d')
      else strip_id_dict used keys d)"

text \<open>
  The same loop on a list: an element equal to \<^verbatim>\<open>"id"\<close> leads to \<^verbatim>\<open>list.pop("id")\<close>,
  a TypeError, since a list pops by position.
\<close>

fun strip_id_list :: "json list \<Rightarrow> json list \<Rightarrow> error + json list" where
  "strip_id_list [] xs = Inr xs"
| "strip_id_list (key # keys) xs =
     (if py_eq key (JStr ''id'') then Inl TypeError else strip_id_list keys xs)"

text \<open>
  The loop on any value: the characters of a string are never equal to \<^verbatim>\<open>"id"\<close>, so a
  string passes unchanged; a number, a boolean and \<^verbatim>\<open>None\<close> are not iterable.
\<close>

fun strip_id :: "json \<Rightarrow> error + json" where
  "strip_id (JObj d) =
     (case strip_id_dict (length d) (map fst d) d of Inl e \<Rightarrow> Inl e | Inr d' \<Rightarrow> Inr (JObj d'))"
| "strip_id (JArr xs) =
     (case strip_id_list xs xs of Inl e \<Rightarrow> Inl e | Inr xs' \<Rightarrow> Inr (JArr xs'))"
| "strip_id (JStr s) = Inr (JStr s)"
| "strip_id _ = Inl TypeError"

text \<open>A dictionary key must be hashable: lists and dictionaries are not.\<close>

fun hashable :: "json \<Rightarrow> bool" where
  "hashable (JArr xs) = False"
| "hashable (JObj kvs) = False"
| "hashable _ = True"

text \<open>
  \<^verbatim>\<open>model_hits[k] += n\<close> on a \<^verbatim>\<open>defaultdict(int)\<close>: a key that is not there starts at 0
  and goes to the end; a key that is there (Python compares keys with \<^verbatim>\<open>==\<close>) keeps its
  place.
\<close>

fun hits_add :: "json \<Rightarrow> nat \<Rightarrow> (json \<times> nat) list \<Rightarrow> (json \<times> nat) list" where
  "hits_add k n [] = [(k, 0 + n)]"
| "hits_add k n ((k', c) # rest) =
     (if py_eq k' k then (k', c + n) # rest else (k', c) # hits_add k n rest)"

text \<open>
  One prediction:
  \<^verbatim>\<open>model_version = prediction["model_version"]\<close>,
  \<^verbatim>\<open>model_hits[model_version] += int(prediction["result"] == annotation_result)\<close>.
  Python reads \<^verbatim>\<open>model_hits[model_version]\<close> before it evaluates the right-hand side.
\<close>

definition count_prediction ::
  "json \<Rightarrow> json \<Rightarrow> (json \<times> nat) list \<Rightarrow> error + (json \<times> nat) list" where
  "count_prediction annotation_result prediction model_hits =
     (case getitem_str prediction ''model_version'' of
        Inl e \<Rightarrow> Inl e
      | Inr model_version \<Rightarrow>
          if \<not> hashable model_version then Inl TypeError
          else
            (case getitem_str prediction ''result'' of
               Inl e \<Rightarrow> Inl e
             | Inr r \<Rightarrow>
                 Inr (hits_add model_version
                        (if py_eq r annotation_result then 1 else 0) model_hits)))"

text \<open>\<^verbatim>\<open>for prediction in ls_task["predictions"]\<close>, stopping at the first exception.\<close>

fun count_predictions ::
  "json \<Rightarrow> json list \<Rightarrow> (json \<times> nat) list \<Rightarrow> error + (json \<times> nat) list" where
  "count_predictions annotation_result [] model_hits = Inr model_hits"
| "count_predictions annotation_result (prediction # rest) model_hits =
     (case count_prediction annotation_result prediction model_hits of
        Inl e \<Rightarrow> Inl e
      | Inr model_hits' \<Rightarrow> count_predictions annotation_result rest model_hits')"

text \<open>The body of \<^verbatim>\<open>for ls_task in json.loads(tasks)\<close>.\<close>

definition eval_task :: "json \<Rightarrow> (json \<times> nat) list \<Rightarrow> error + (json \<times> nat) list" where
  "eval_task ls_task model_hits =
     (case getitem_str ls_task ''result'' of
        Inl e \<Rightarrow> Inl e
      | Inr results \<Rightarrow>
     (case getitem_0 results of
        Inl e \<Rightarrow> Inl e
      | Inr first_result \<Rightarrow>
     (case getitem_str first_result ''value'' of
        Inl e \<Rightarrow> Inl e
      | Inr value \<Rightarrow>
     (case strip_id value of
        Inl e \<Rightarrow> Inl e
      | Inr annotation_result \<Rightarrow>
     (case getitem_str ls_task ''predictions'' of
        Inl e \<Rightarrow> Inl e
      | Inr predictions \<Rightarrow>
     (case iter predictions of
        Inl e \<Rightarrow> Inl e
      | Inr ps \<Rightarrow> count_predictions annotation_result ps model_hits))))))"

fun eval_tasks :: "json list \<Rightarrow> (json \<times> nat) list \<Rightarrow> error + (json \<times> nat) list" where
  "eval_tasks [] model_hits = Inr model_hits"
| "eval_tasks (ls_task # rest) model_hits =
     (case eval_task ls_task model_hits of
        Inl e \<Rightarrow> Inl e
      | Inr model_hits' \<Rightarrow> eval_tasks rest model_hits')"

text \<open>
  The first loop of \<^verbatim>\<open>evaluate_ner\<close>: \<^verbatim>\<open>model_hits\<close> once every task has been read.
\<close>

definition count_hits ::
  "(string \<Rightarrow> error + json) \<Rightarrow> pyarg \<Rightarrow> error + (json \<times> nat) list" where
  "count_hits loads tasks =
     (case json_loads loads tasks of
        Inl e \<Rightarrow> Inl e
      | Inr parsed \<Rightarrow>
          (case iter parsed of
             Inl e \<Rightarrow> Inl e
           | Inr ls_tasks \<Rightarrow> eval_tasks ls_tasks []))"

text \<open>
  The second loop: \<^verbatim>\<open>acc = num_hits / num_task\<close> for every entry of \<^verbatim>\<open>model_hits\<close>, in
  its order. Python's \<^verbatim>\<open>/\<close> gives the float nearest to the quotient; the model keeps the
  quotient itself, a rational number.
\<close>

fun accuracies :: "nat \<Rightarrow> (json \<times> nat) list \<Rightarrow> error + (json \<times> rat) list" where
  "accuracies num_task [] = Inr []"
| "accuracies num_task ((model_name, num_hits) # rest) =
     (if num_task = 0 then Inl ZeroDivisionError
      else
        (case accuracies num_task rest of
           Inl e \<Rightarrow> Inl e
         | Inr model_acc \<Rightarrow> Inr ((model_name, of_nat num_hits / of_nat num_task) # model_acc)))"

definition evaluate_ner ::
  "(string \<Rightarrow> error + json) \<Rightarrow> pyarg \<Rightarrow> error + (json \<times> rat) list" where
  "evaluate_ner loads tasks =
     (case count_hits loads tasks of
        Inl e \<Rightarrow> Inl e
      | Inr model_hits \<Rightarrow> accuracies (len tasks) model_hits)"


section \<open>The training-data formatter\<close>

text \<open>
  The tuple \<^verbatim>\<open>(ent["value"]["start"], ent["value"]["end"], label)\<close>. A tuple is written
  as a JSON array by \<^verbatim>\<open>json.dumps\<close>, so it is an array here.
\<close>

definition entity :: "json \<Rightarrow> json \<Rightarrow> error + json" where
  "entity ent label =
     (case getitem_str ent ''value'' of
        Inl e \<Rightarrow> Inl e
      | Inr v1 \<Rightarrow>
     (case getitem_str v1 ''start'' of
        Inl e \<Rightarrow> Inl e
      | Inr start \<Rightarrow>
     (case getitem_str ent ''value'' of
        Inl e \<Rightarrow> Inl e
      | Inr v2 \<Rightarrow>
     (case getitem_str v2 ''end'' of
        Inl e \<Rightarrow> Inl e
      | Inr end \<Rightarrow> Inr (JArr [start, end, label])))))"

text \<open>\<^verbatim>\<open>for label in ent["value"]["labels"]\<close> of the comprehension, for one \<open>ent\<close>.\<close>

fun label_entities :: "json \<Rightarrow> json list \<Rightarrow> error + json list" where
  "label_entities ent [] = Inr []"
| "label_entities ent (label # labels) =
     (case entity ent label of
        Inl e \<Rightarrow> Inl e
      | Inr t \<Rightarrow>
          (case label_entities ent labels of Inl e \<Rightarrow> Inl e | Inr ts \<Rightarrow> Inr (t # ts)))"

definition ent_entities :: "json \<Rightarrow> error + json list" where
  "ent_entities ent =
     (case getitem_str ent ''value'' of
        Inl e \<Rightarrow> Inl e
      | Inr v \<Rightarrow>
     (case getitem_str v ''labels'' of
        Inl e \<Rightarrow> Inl e
      | Inr ls \<Rightarrow>
     (case iter ls of
        Inl e \<Rightarrow> Inl e
      | Inr labels \<Rightarrow> label_entities ent labels)))"

text \<open>\<^verbatim>\<open>for ent in ls_task["result"]\<close> of the comprehension.\<close>

fun result_entities :: "json list \<Rightarrow> error + json list" where
  "result_entities [] = Inr []"
| "result_entities (ent # ents) =
     (case ent_entities ent of
        Inl e \<Rightarrow> Inl e
      | Inr ts \<Rightarrow>
          (case result_entities ents of Inl e \<Rightarrow> Inl e | Inr ts' \<Rightarrow> Inr (ts @ ts')))"

text \<open>The list comprehension that builds \<^verbatim>\<open>entities\<close> for one task.\<close>

definition task_entities :: "json \<Rightarrow> error + json list" where
  "task_entities ls_task =
     (case getitem_str ls_task ''result'' of
        Inl e \<Rightarrow> Inl e
      | Inr results \<Rightarrow>
     (case iter results of
        Inl e \<Rightarrow> Inl e
      | Inr ents \<Rightarrow> result_entities ents))"

text \<open>\<^verbatim>\<open>ls_task["task"]["data"]["text"]\<close>.\<close>

definition task_text :: "json \<Rightarrow> error + json" where
  "task_text ls_task =
     (case getitem_str ls_task ''task'' of
        Inl e \<Rightarrow> Inl e
      | Inr t \<Rightarrow>
     (case getitem_str t ''data'' of
        Inl e \<Rightarrow> Inl e
      | Inr d \<Rightarrow> getitem_str d ''text''))"

text \<open>
  The loop of \<^verbatim>\<open>format_tasks_for_train\<close>; \<open>train_data\<close> is the list built so far. The
  text of a task is read only when the task has entities.
\<close>

fun format_loop :: "json list \<Rightarrow> json list \<Rightarrow> error + json list" where
  "format_loop [] train_data = Inr train_data"
| "format_loop (ls_task # rest) train_data =
     (case task_entities ls_task of
        Inl e \<Rightarrow> Inl e
      | Inr entities \<Rightarrow>
          if entities \<noteq> [] then
            (case task_text ls_task of
               Inl e \<Rightarrow> Inl e
             | Inr text \<Rightarrow>
                 format_loop rest
                   (train_data @ [JArr [text, JObj [(''entities'', JArr entities)]]]))
          else format_loop rest train_data)"

text \<open>\<^verbatim>\<open>train_data\<close> as it stands before \<^verbatim>\<open>json.dumps\<close>.\<close>

definition train_data_of :: "(string \<Rightarrow> error + json) \<Rightarrow> string \<Rightarrow> error + json list" where
  "train_data_of loads tasks =
     (case loads tasks of
        Inl e \<Rightarrow> Inl e
      | Inr parsed \<Rightarrow>
          (case iter parsed of
             Inl e \<Rightarrow> Inl e
           | Inr ls_tasks \<Rightarrow> format_loop ls_tasks []))"

text \<open>\<^verbatim>\<open>json.dumps\<close> is the parameter \<open>dumps\<close>.\<close>

definition format_tasks_for_train ::
  "(string \<Rightarrow> error + json) \<Rightarrow> (json \<Rightarrow> string) \<Rightarrow> string \<Rightarrow> error + string" where
  "format_tasks_for_train loads dumps tasks =
     (case train_data_of loads tasks of
        Inl e \<Rightarrow> Inl e
      | Inr train_data \<Rightarrow> Inr (dumps (JArr train_data)))"

section \<open>Loading the model\<close>

text \<open>
  What \<^verbatim>\<open>load_model\<close>, \<^verbatim>\<open>train_model\<close> and the gate call outside this file:
  \<^verbatim>\<open>Path("tmp").mkdir\<close>, \<^verbatim>\<open>download_from_gcs\<close> of \<^verbatim>\<open>utils\<close> (bucket, blob, folder; a
  list of file paths), \<^verbatim>\<open>spacy.load\<close>, and the training of \<^verbatim>\<open>train_model\<close> (train data,
  model, iterations), whose body is spaCy calls and an upload. \<open>'nlp\<close> is the type of a
  loaded model.
\<close>

record 'nlp env =
  mkdir :: "string \<Rightarrow> error + unit"
  download_from_gcs :: "string \<Rightarrow> string \<Rightarrow> string \<Rightarrow> error + string list"
  spacy_load :: "string \<Rightarrow> error + 'nlp"
  train_model :: "string \<Rightarrow> 'nlp \<Rightarrow> nat \<Rightarrow> error + 'nlp"

definition SPACY_MODEL :: "(string \<times> string) list" where
  "SPACY_MODEL = [(''en'', ''en_core_web_sm'')]"

text \<open>
  The two branches of \<^verbatim>\<open>load_model\<close> assign different local variables, so a local is an
  option: \<open>None\<close> while it is unbound. The branch returns the pair of locals
  (\<^verbatim>\<open>nlp\<close>, \<^verbatim>\<open>model_name\<close>).
\<close>

definition load_model_branch ::
  "'nlp env \<Rightarrow> string \<Rightarrow> bool \<Rightarrow> string \<Rightarrow> string \<Rightarrow> error + ('nlp option \<times> string option)" where
  "load_model_branch env lang from_gcs gcs_bucket gcs_source_blob_name =
     (if from_gcs then
        (case mkdir env ''tmp'' of
           Inl e \<Rightarrow> Inl e
         | Inr _ \<Rightarrow>
        (case download_from_gcs env gcs_bucket gcs_source_blob_name ''tmp'' of
           Inl e \<Rightarrow> Inl e
         | Inr files \<Rightarrow>
        (case files of
           [] \<Rightarrow> Inl IndexError
         | output_filename # _ \<Rightarrow>
        (case spacy_load env output_filename of
           Inl e \<Rightarrow> Inl e
         | Inr nlp \<Rightarrow> Inr (Some nlp, None)))))
      else
        (case map_of SPACY_MODEL lang of
           None \<Rightarrow> Inl KeyError
         | Some model_name \<Rightarrow> Inr (None, Some model_name)))"

text \<open>
  After the \<^verbatim>\<open>if\<close>, at the indentation of the function body:
  \<^verbatim>\<open>nlp = spacy.load(model_name)\<close>, then \<^verbatim>\<open>return nlp\<close>. Reading an unbound local raises
  an UnboundLocalError.
\<close>

definition load_model ::
  "'nlp env \<Rightarrow> string \<Rightarrow> bool \<Rightarrow> string \<Rightarrow> string \<Rightarrow> error + 'nlp" where
  "load_model env lang from_gcs gcs_bucket gcs_source_blob_name =
     (case load_model_branch env lang from_gcs gcs_bucket gcs_source_blob_name of
        Inl e \<Rightarrow> Inl e
      | Inr (nlp, model_name) \<Rightarrow>
          (case model_name of
             None \<Rightarrow> Inl UnboundLocalError
           | Some name \<Rightarrow> spacy_load env name))"

section \<open>The training gate\<close>

definition THRESHOLD_ACCURACY :: rat where
  "THRESHOLD_ACCURACY = 7 / 10"

text \<open>The calls the gate makes to other tasks, with their arguments.\<close>

datatype 'nlp call =
    CallFormat string
  | CallLoadModel string bool string string
  | CallTrainModel string 'nlp nat

text \<open>
  The body of \<^verbatim>\<open>train_model_if_necessary\<close> as a function of its two locals
  \<^verbatim>\<open>metrics_dict\<close> and \<^verbatim>\<open>model_name\<close>. It returns the calls made, in order, and
  whether it ended with \<^verbatim>\<open>None\<close> or with an exception; an exception in a call ends the
  body, so the calls after it are not made.
\<close>

definition train_gate ::
  "'nlp env \<Rightarrow> (string \<Rightarrow> error + json) \<Rightarrow> (json \<Rightarrow> string) \<Rightarrow>
   (string \<times> rat) list \<Rightarrow> string \<Rightarrow> string \<Rightarrow> 'nlp call list \<times> (error + unit)" where
  "train_gate env loads dumps metrics_dict model_name tasks =
     (case map_of metrics_dict model_name of
        None \<Rightarrow> ([], Inl KeyError)
      | Some accuracy \<Rightarrow>
          if accuracy \<ge> THRESHOLD_ACCURACY then ([], Inr ())
          else
            (case format_tasks_for_train loads dumps tasks of
               Inl e \<Rightarrow> ([CallFormat tasks], Inl e)
             | Inr train_data \<Rightarrow>
            (case load_model env ''en'' False [] [] of
               Inl e \<Rightarrow> ([CallFormat tasks, CallLoadModel ''en'' False [] []], Inl e)
             | Inr nlp \<Rightarrow>
            (case train_model env train_data nlp 30 of
               Inl e \<Rightarrow>
                 ([CallFormat tasks, CallLoadModel ''en'' False [] [],
                   CallTrainModel train_data nlp 30], Inl e)
             | Inr nlp' \<Rightarrow>
                 ([CallFormat tasks, CallLoadModel ''en'' False [] [],
                   CallTrainModel train_data nlp 30], Inr ())))))"

text \<open>
  The function as it is written: its only parameter is \<^verbatim>\<open>tasks\<close> (the other two are
  commented out of the signature), and the body starts with
  \<^verbatim>\<open>metrics_dict = {"dummy": 0.5}\<close> and \<^verbatim>\<open>model_name = "dummy"\<close>.
\<close>

definition train_model_if_necessary ::
  "'nlp env \<Rightarrow> (string \<Rightarrow> error + json) \<Rightarrow> (json \<Rightarrow> string) \<Rightarrow> string \<Rightarrow>
   'nlp call list \<times> (error + unit)" where
  "train_model_if_necessary env loads dumps tasks =
     train_gate env loads dumps [(''dummy'', 1 / 2)] ''dummy'' tasks"

section \<open>A reader for JSON texts\<close>

text \<open>
  The theorems below hold for every reader \<open>loads\<close>. To run the workflow on a text, this
  section gives one: a recursive-descent reader for JSON texts made of objects, arrays,
  strings without escape sequences, integers, \<^verbatim>\<open>true\<close>, \<^verbatim>\<open>false\<close> and \<^verbatim>\<open>null\<close>. Any
  other text is a JSONDecodeError here. The recursion is bounded by fuel, one unit for
  each nested call; running out of it is a JSONDecodeError too.
\<close>

fun is_ws :: "char \<Rightarrow> bool" where
  "is_ws c = (c = CHR '' '' \<or> c = CHR 0x0A \<or> c = CHR 0x0D \<or> c = CHR 0x09)"

fun skip_ws :: "string \<Rightarrow> string" where
  "skip_ws [] = []"
| "skip_ws (c # cs) = (if is_ws c then skip_ws cs else c # cs)"

text \<open>The value of a decimal digit: the characters with codes 48 to 57.\<close>

definition digit_val :: "char \<Rightarrow> nat option" where
  "digit_val c =
     (let code = (of_char c :: nat) in if 48 \<le> code \<and> code \<le> 57 then Some (code - 48) else None)"

text \<open>The digits at the front of a text, read in base ten, and the rest of the text.\<close>

fun read_digits :: "nat \<Rightarrow> string \<Rightarrow> nat \<times> string" where
  "read_digits acc [] = (acc, [])"
| "read_digits acc (c # cs) =
     (case digit_val c of None \<Rightarrow> (acc, c # cs) | Some d \<Rightarrow> read_digits (10 * acc + d) cs)"

text \<open>
  A number: digits with no leading zero, and neither a fraction nor an exponent after
  them (that would be a float).
\<close>

definition read_nat :: "string \<Rightarrow> (nat \<times> string) option" where
  "read_nat cs =
     (case cs of
        [] \<Rightarrow> None
      | c # cs' \<Rightarrow>
          (case digit_val c of
             None \<Rightarrow> None
           | Some d \<Rightarrow>
               (let (n, rest) = (if d = 0 then (0, cs') else read_digits d cs')
                in case rest of
                     [] \<Rightarrow> Some (n, rest)
                   | r # _ \<Rightarrow>
                       if digit_val r \<noteq> None \<or> r = CHR ''.'' \<or> r = CHR ''e'' \<or> r = CHR ''E''
                       then None else Some (n, rest))))"

text \<open>The characters of a string up to its closing quote; a backslash is not read.\<close>

fun read_chars :: "string \<Rightarrow> string \<Rightarrow> (string \<times> string) option" where
  "read_chars acc [] = None"
| "read_chars acc (c # cs) =
     (if c = CHR 0x22 then Some (rev acc, cs)
      else if c = CHR 0x5C \<or> of_char c < (32::nat) then None
      else read_chars (c # acc) cs)"

fun read_value :: "nat \<Rightarrow> string \<Rightarrow> (json \<times> string) option"
  and read_elements :: "nat \<Rightarrow> json list \<Rightarrow> string \<Rightarrow> (json \<times> string) option"
  and read_members :: "nat \<Rightarrow> (string \<times> json) list \<Rightarrow> string \<Rightarrow> (json \<times> string) option"
where
  "read_value 0 cs = None"
| "read_value (Suc fuel) cs =
     (case skip_ws cs of
        [] \<Rightarrow> None
      | c # rest \<Rightarrow>
          if c = CHR 0x22 then
            (case read_chars [] rest of None \<Rightarrow> None | Some (s, rest') \<Rightarrow> Some (JStr s, rest'))
          else if c = CHR ''['' then
            (case skip_ws rest of
               [] \<Rightarrow> None
             | d # rest' \<Rightarrow>
                 if d = CHR '']'' then Some (JArr [], rest')
                 else read_elements fuel [] (d # rest'))
          else if c = CHR ''{'' then
            (case skip_ws rest of
               [] \<Rightarrow> None
             | d # rest' \<Rightarrow>
                 if d = CHR ''}'' then Some (JObj [], rest')
                 else read_members fuel [] (d # rest'))
          else if c = CHR ''-'' then
            (case read_nat rest of None \<Rightarrow> None | Some (n, rest') \<Rightarrow> Some (JInt (- int n), rest'))
          else if take 4 (c # rest) = ''true'' then Some (JBool True, drop 4 (c # rest))
          else if take 5 (c # rest) = ''false'' then Some (JBool False, drop 5 (c # rest))
          else if take 4 (c # rest) = ''null'' then Some (JNull, drop 4 (c # rest))
          else
            (case read_nat (c # rest) of None \<Rightarrow> None | Some (n, rest') \<Rightarrow> Some (JInt (int n), rest')))"
| "read_elements 0 acc cs = None"
| "read_elements (Suc fuel) acc cs =
     (case read_value fuel cs of
        None \<Rightarrow> None
      | Some (v, rest) \<Rightarrow>
          (case skip_ws rest of
             [] \<Rightarrow> None
           | c # rest' \<Rightarrow>
               if c = CHR '','' then read_elements fuel (acc @ [v]) rest'
               else if c = CHR '']'' then Some (JArr (acc @ [v]), rest')
               else None))"
| "read_members 0 acc cs = None"
| "read_members (Suc fuel) acc cs =
     (case skip_ws cs of
        [] \<Rightarrow> None
      | q # rest \<Rightarrow>
          if q \<noteq> CHR 0x22 then None
          else
            (case read_chars [] rest of
               None \<Rightarrow> None
             | Some (k, rest1) \<Rightarrow>
                 (case skip_ws rest1 of
                    [] \<Rightarrow> None
                  | colon # rest2 \<Rightarrow>
                      if colon \<noteq> CHR '':'' then None
                      else
                        (case read_value fuel rest2 of
                           None \<Rightarrow> None
                         | Some (v, rest3) \<Rightarrow>
                             (case skip_ws rest3 of
                                [] \<Rightarrow> None
                              | c # rest4 \<Rightarrow>
                                  if c = CHR '','' then
                                    read_members fuel (AList.update k v acc) rest4
                                  else if c = CHR ''}'' then
                                    Some (JObj (AList.update k v acc), rest4)
                                  else None)))))"

text \<open>
  The whole text must be one value, with nothing but white space after it. A key written
  twice keeps its first place and its last value, as in a Python dictionary.
\<close>

definition read_json :: "string \<Rightarrow> error + json" where
  "read_json s =
     (case read_value (Suc (length s)) s of
        None \<Rightarrow> Inl JSONDecodeError
      | Some (v, rest) \<Rightarrow> if skip_ws rest = [] then Inr v else Inl JSONDecodeError)"


section \<open>What a batch holds\<close>

text \<open>
  The notions the properties of the evaluator are stated with. The model identifiers of a
  list of predictions, of the prediction list of a task and of a whole batch, in order
  and with repetitions: one entry for each prediction that has a \<^verbatim>\<open>"model_version"\<close>.
\<close>

definition prediction_models :: "json list \<Rightarrow> json list" where
  "prediction_models ps =
     concat (map (\<lambda>p. case getitem_str p ''model_version'' of Inl e \<Rightarrow> [] | Inr m \<Rightarrow> [m]) ps)"

definition task_models :: "json \<Rightarrow> json list" where
  "task_models t =
     (case getitem_str t ''predictions'' of
        Inl e \<Rightarrow> []
      | Inr predictions \<Rightarrow>
          (case iter predictions of Inl e \<Rightarrow> [] | Inr ps \<Rightarrow> prediction_models ps))"

definition batch_models :: "json list \<Rightarrow> json list" where
  "batch_models ts = concat (map task_models ts)"

text \<open>
  The number of values in a value: itself, the elements of a list and the values of a
  dictionary, all the way down. Each of them takes at least one byte of the text it is
  read from.
\<close>

fun nodes :: "json \<Rightarrow> nat" where
  "nodes JNull = 1"
| "nodes (JBool b) = 1"
| "nodes (JInt i) = 1"
| "nodes (JStr s) = 1"
| "nodes (JArr xs) = Suc (sum_list (map nodes xs))"
| "nodes (JObj kvs) = Suc (sum_list (map (\<lambda>kv. nodes (snd kv)) kvs))"

text \<open>
  Reading a counter, \<^verbatim>\<open>model_hits[k]\<close>: 0 for a key that is not there, as the
  \<^verbatim>\<open>defaultdict\<close> answers.
\<close>

fun hits_of :: "json \<Rightarrow> (json \<times> nat) list \<Rightarrow> nat" where
  "hits_of k [] = 0"
| "hits_of k ((k', c) # rest) = (if py_eq k' k then c else hits_of k rest)"

text \<open>
  The training data a batch stands for, in the words of the specification. A task has
  accepted result entries; an entry stands for one span \<open>(start, end, label)\<close> for each of
  its labels; a task with at least one span becomes the pair of its text and its spans. A
  field that cannot be read is \<^verbatim>\<open>None\<close> here, and a value that cannot be iterated has no
  element.
\<close>

definition field :: "json \<Rightarrow> string \<Rightarrow> json" where
  "field obj k = (case getitem_str obj k of Inl e \<Rightarrow> JNull | Inr v \<Rightarrow> v)"

definition elements :: "json \<Rightarrow> json list" where
  "elements v = (case iter v of Inl e \<Rightarrow> [] | Inr xs \<Rightarrow> xs)"

definition entry_spans :: "json \<Rightarrow> json list" where
  "entry_spans ent =
     map (\<lambda>label. JArr [field (field ent ''value'') ''start'', field (field ent ''value'') ''end'', label])
       (elements (field (field ent ''value'') ''labels''))"

definition accepted_spans :: "json \<Rightarrow> json list" where
  "accepted_spans t = concat (map entry_spans (elements (field t ''result'')))"

definition training_pair :: "json \<Rightarrow> json" where
  "training_pair t =
     JArr [field (field (field t ''task'') ''data'') ''text'',
           JObj [(''entities'', JArr (accepted_spans t))]]"

definition training_pairs :: "json list \<Rightarrow> json list" where
  "training_pairs ts = map training_pair (filter (\<lambda>t. accepted_spans t \<noteq> []) ts)"

text \<open>
  A task the formatter can read: the comprehension raises nothing, and the text is there
  when the task has entities.
\<close>

definition readable_task :: "json \<Rightarrow> bool" where
  "readable_task t =
     (case task_entities t of
        Inl e \<Rightarrow> False
      | Inr entities \<Rightarrow>
          entities = [] \<or> (case task_text t of Inl e \<Rightarrow> False | Inr text \<Rightarrow> True))"

section \<open>A writer of JSON texts\<close>

text \<open>
  A stand-in for \<^verbatim>\<open>json.dumps\<close> to run the formatter and the gate on examples: it writes
  what \<^verbatim>\<open>json.dumps\<close> writes for values whose strings need no escape sequence.
\<close>

function show_nat :: "nat \<Rightarrow> string" where
  "show_nat n =
     (if n < 10 then [char_of (48 + n)] else show_nat (n div 10) @ [char_of (48 + n mod 10)])"
  by pat_completeness auto
termination
  by (relation "measure (\<lambda>n. n)") auto

fun join_with :: "string \<Rightarrow> string list \<Rightarrow> string" where
  "join_with sep [] = []"
| "join_with sep [x] = x"
| "join_with sep (x # y # rest) = x @ sep @ join_with sep (y # rest)"

fun write_json :: "json \<Rightarrow> string" where
  "write_json JNull = ''null''"
| "write_json (JBool b) = (if b then ''true'' else ''false'')"
| "write_json (JInt i) = (if i < 0 then CHR ''-'' # show_nat (nat (- i)) else show_nat (nat i))"
| "write_json (JStr s) = [CHR 0x22] @ s @ [CHR 0x22]"
| "write_json (JArr xs) = ''['' @ join_with '', '' (map write_json xs) @ '']''"
| "write_json (JObj kvs) =
     ''{'' @
     join_with '', ''
       (map (\<lambda>kv. [CHR 0x22] @ fst kv @ [CHR 0x22] @ '': '' @ write_json (snd kv)) kvs) @
     ''}''"

section \<open>An environment for the examples\<close>

text \<open>
  Collaborators that raise nothing: the download returns one path, and a model is known
  by the name or path it was loaded from.
\<close>

definition env_ok :: "string env" where
  "env_ok =
     \<lparr>mkdir = (\<lambda>path. Inr ()),
      download_from_gcs = (\<lambda>bucket blob folder. Inr [folder @ ''/'' @ blob]),
      spacy_load = (\<lambda>name. Inr name),
      train_model = (\<lambda>train_data nlp training_iterations. Inr nlp)\<rparr>"

section \<open>Example batches\<close>

text \<open>The example of the docstring of \<^verbatim>\<open>evaluate_ner\<close>: one task, one prediction, a match.\<close>

definition batch_docstring :: string where
  "batch_docstring =
     ''[{\"result\": [{\"value\": {\"start\": 10, \"end\": 17, \"text\": \"Chennai\", \"labels\": [\"LOC\"]}}], \"predictions\": [{\"result\": {\"start\": 10, \"end\": 17, \"text\": \"Chennai\", \"labels\": [\"LOC\"]}, \"model_version\": \"dummy\"}]}]''"

text \<open>One task whose accepted annotation carries an \<^verbatim>\<open>"id"\<close>; it has no prediction.\<close>

definition batch_with_id :: string where
  "batch_with_id =
     ''[{\"result\": [{\"value\": {\"id\": \"a1\", \"start\": 10, \"end\": 17, \"labels\": [\"LOC\"]}}], \"predictions\": []}]''"

text \<open>One task with no accepted result.\<close>

definition batch_empty_result :: string where
  "batch_empty_result = ''[{\"result\": [], \"predictions\": []}]''"

text \<open>One task and two predictions of the model \<^verbatim>\<open>m1\<close>, both equal to the annotation.\<close>

definition batch_two_predictions :: string where
  "batch_two_predictions =
     ''[{\"result\": [{\"value\": {\"start\": 0, \"end\": 5, \"labels\": [\"LOC\"]}}], \"predictions\": [{\"result\": {\"start\": 0, \"end\": 5, \"labels\": [\"LOC\"]}, \"model_version\": \"m1\"}, {\"result\": {\"start\": 0, \"end\": 5, \"labels\": [\"LOC\"]}, \"model_version\": \"m1\"}]}]''"

text \<open>One task whose only prediction has no \<^verbatim>\<open>"result"\<close>.\<close>

definition batch_prediction_without_result :: string where
  "batch_prediction_without_result =
     ''[{\"result\": [{\"value\": {\"start\": 0, \"end\": 5, \"labels\": [\"LOC\"]}}], \"predictions\": [{\"model_version\": \"m1\"}]}]''"

text \<open>
  Three tasks for the formatter: one with a span that has two labels, one with no result
  entry, one whose only entry has no label.
\<close>

definition batch_for_training :: string where
  "batch_for_training =
     ''[{\"task\": {\"data\": {\"text\": \"I live in Chennai\"}}, \"result\": [{\"value\": {\"start\": 10, \"end\": 17, \"text\": \"Chennai\", \"labels\": [\"LOC\", \"GPE\"]}}]}, {\"result\": []}, {\"result\": [{\"value\": {\"labels\": []}}]}]''"

definition tasks_for_training :: "json list" where
  "tasks_for_training =
     [JObj
        [(''task'', JObj [(''data'', JObj [(''text'', JStr ''I live in Chennai'')])]),
         (''result'',
          JArr
            [JObj
               [(''value'',
                 JObj
                   [(''start'', JInt 10), (''end'', JInt 17), (''text'', JStr ''Chennai''),
                    (''labels'', JArr [JStr ''LOC'', JStr ''GPE''])])]])],
      JObj [(''result'', JArr [])],
      JObj [(''result'', JArr [JObj [(''value'', JObj [(''labels'', JArr [])])]])]]"

text \<open>The tasks of \<open>batch_docstring\<close> and \<open>batch_two_predictions\<close> as \<^verbatim>\<open>json.loads\<close> returns them.\<close>

definition task_docstring :: json where
  "task_docstring =
     JObj
       [(''result'',
         JArr
           [JObj
              [(''value'',
                JObj
                  [(''start'', JInt 10), (''end'', JInt 17), (''text'', JStr ''Chennai''),
                   (''labels'', JArr [JStr ''LOC''])])]]),
        (''predictions'',
         JArr
           [JObj
              [(''result'',
                JObj
                  [(''start'', JInt 10), (''end'', JInt 17), (''text'', JStr ''Chennai''),
                   (''labels'', JArr [JStr ''LOC''])]),
               (''model_version'', JStr ''dummy'')]])]"

definition task_two_predictions :: json where
  "task_two_predictions =
     JObj
       [(''result'',
         JArr
           [JObj
              [(''value'',
                JObj [(''start'', JInt 0), (''end'', JInt 5), (''labels'', JArr [JStr ''LOC''])])]]),
        (''predictions'',
         JArr
           [JObj
              [(''result'',
                JObj [(''start'', JInt 0), (''end'', JInt 5), (''labels'', JArr [JStr ''LOC''])]),
               (''model_version'', JStr ''m1'')],
            JObj
              [(''result'',
                JObj [(''start'', JInt 0), (''end'', JInt 5), (''labels'', JArr [JStr ''LOC''])]),
               (''model_version'', JStr ''m1'')]])]"

section \<open>Properties of the reader\<close>

text \<open>
  The reader returns no more values than the text has bytes: every value it reads uses up
  at least one character. The three functions call each other with less fuel, so the
  proof is by induction on the fuel, one step for each function.
\<close>

lemma skip_ws_length: "length (skip_ws cs) \<le> length cs"
  by (induction cs) auto

lemma skip_ws_Cons: "skip_ws cs = c # r \<Longrightarrow> length r < length cs"
  using skip_ws_length [of cs] by simp

lemma read_chars_length: "read_chars acc cs = Some (s, rest) \<Longrightarrow> length rest < length cs"
  by (induction cs arbitrary: acc) (auto split: if_splits simp: less_Suc_eq)

lemma read_digits_length: "read_digits a cs = (n, rest) \<Longrightarrow> length rest \<le> length cs"
  by (induction cs arbitrary: a) (auto split: option.splits simp: le_Suc_eq)

lemma read_nat_length: "read_nat cs = Some (n, rest) \<Longrightarrow> length rest < length cs"
  by (auto simp: read_nat_def Let_def less_Suc_eq_le
      split: list.splits option.splits if_splits prod.splits dest: read_digits_length)

lemma take_drop_length: "take n xs = ys \<Longrightarrow> length (drop n xs) + length ys = length xs"
  by auto

lemma nodes_pos: "0 < nodes v"
  by (cases v) auto

lemma sum_nodes_update:
  "sum_list (map (\<lambda>kv. nodes (snd kv)) (AList.update k v acc)) \<le>
   sum_list (map (\<lambda>kv. nodes (snd kv)) acc) + nodes v"
  by (induction acc) auto

lemma read_value_nodes_step:
  assumes E: "\<And>acc cs v rest. read_elements fuel acc cs = Some (v, rest) \<Longrightarrow>
            \<exists>xs. v = JArr xs \<and>
              Suc (sum_list (map nodes xs) + length rest) \<le> sum_list (map nodes acc) + length cs"
    and M: "\<And>acc cs v rest. read_members fuel acc cs = Some (v, rest) \<Longrightarrow>
            \<exists>kvs. v = JObj kvs \<and>
              Suc (sum_list (map (\<lambda>kv. nodes (snd kv)) kvs) + length rest) \<le>
                sum_list (map (\<lambda>kv. nodes (snd kv)) acc) + length cs"
    and R: "read_value (Suc fuel) cs = Some (v, rest)"
  shows "nodes v + length rest \<le> length cs"
proof -
  from R obtain c r where ws: "skip_ws cs = c # r"
    by (auto split: list.splits)
  from skip_ws_Cons [OF ws] have r: "Suc (length r) \<le> length cs" by simp
  consider (str) "c = CHR 0x22"
    | (arr) "c \<noteq> CHR 0x22" "c = CHR ''[''"
    | (obj) "c \<noteq> CHR 0x22" "c \<noteq> CHR ''[''" "c = CHR ''{''"
    | (neg) "c \<noteq> CHR 0x22" "c \<noteq> CHR ''[''" "c \<noteq> CHR ''{''" "c = CHR ''-''"
    | (other) "c \<noteq> CHR 0x22" "c \<noteq> CHR ''[''" "c \<noteq> CHR ''{''" "c \<noteq> CHR ''-''"
    by blast
  then show ?thesis
  proof cases
    case str
    with R ws obtain s where "read_chars [] r = Some (s, rest)" "v = JStr s"
      by (auto split: option.splits)
    with read_chars_length [of "[]" r s rest] r show ?thesis by simp
  next
    case arr
    with R ws obtain d r' where d: "skip_ws r = d # r'"
      by (auto split: list.splits)
    from skip_ws_Cons [OF d] have r': "Suc (length r') \<le> length r" by simp
    show ?thesis
    proof (cases "d = CHR '']''")
      case True
      with R ws arr d have "v = JArr []" "rest = r'" by auto
      with r r' show ?thesis by simp
    next
      case False
      with R ws arr d have "read_elements fuel [] (d # r') = Some (v, rest)" by simp
      from E [OF this] r r' show ?thesis by auto
    qed
  next
    case obj
    with R ws obtain d r' where d: "skip_ws r = d # r'"
      by (auto split: list.splits)
    from skip_ws_Cons [OF d] have r': "Suc (length r') \<le> length r" by simp
    show ?thesis
    proof (cases "d = CHR ''}''")
      case True
      with R ws obj d have "v = JObj []" "rest = r'" by auto
      with r r' show ?thesis by simp
    next
      case False
      with R ws obj d have "read_members fuel [] (d # r') = Some (v, rest)" by simp
      from M [OF this] r r' show ?thesis by auto
    qed
  next
    case neg
    with R ws obtain n where "read_nat r = Some (n, rest)" "v = JInt (- int n)"
      by (auto split: option.splits)
    with read_nat_length [of r n rest] r show ?thesis by simp
  next
    case other
    have len: "length (c # r) \<le> length cs" using r by simp
    from R ws other consider
        (t) "take 4 (c # r) = ''true''" "v = JBool True" "rest = drop 4 (c # r)"
      | (f) "take 5 (c # r) = ''false''" "v = JBool False" "rest = drop 5 (c # r)"
      | (n) "take 4 (c # r) = ''null''" "v = JNull" "rest = drop 4 (c # r)"
      | (i) n where "read_nat (c # r) = Some (n, rest)" "v = JInt (int n)"
      by (simp split: if_splits option.splits prod.splits)
    then show ?thesis
    proof cases
      case t
      from take_drop_length [OF t(1)] t(2,3) len show ?thesis by simp
    next
      case f
      from take_drop_length [OF f(1)] f(2,3) len show ?thesis by simp
    next
      case n
      from take_drop_length [OF n(1)] n(2,3) len show ?thesis by simp
    next
      case i
      with read_nat_length [of "c # r" n rest] len show ?thesis by simp
    qed
  qed
qed

lemma read_elements_nodes_step:
  assumes V: "\<And>cs v rest. read_value fuel cs = Some (v, rest) \<Longrightarrow>
            nodes v + length rest \<le> length cs"
    and E: "\<And>acc cs v rest. read_elements fuel acc cs = Some (v, rest) \<Longrightarrow>
            \<exists>xs. v = JArr xs \<and>
              Suc (sum_list (map nodes xs) + length rest) \<le> sum_list (map nodes acc) + length cs"
    and R: "read_elements (Suc fuel) acc cs = Some (v, rest)"
  shows "\<exists>xs. v = JArr xs \<and>
           Suc (sum_list (map nodes xs) + length rest) \<le> sum_list (map nodes acc) + length cs"
proof -
  from R obtain x r1 where x: "read_value fuel cs = Some (x, r1)"
    by (auto split: option.splits)
  from V [OF x] have vx: "nodes x + length r1 \<le> length cs" .
  from R x obtain c r2 where ws: "skip_ws r1 = c # r2"
    by (auto split: list.splits)
  from skip_ws_Cons [OF ws] have r2: "Suc (length r2) \<le> length r1" by simp
  show ?thesis
  proof (cases "c = CHR '',''")
    case True
    with R x ws have "read_elements fuel (acc @ [x]) r2 = Some (v, rest)" by simp
    from E [OF this] vx r2 show ?thesis by auto
  next
    case False
    with R x ws have "v = JArr (acc @ [x])" "rest = r2"
      by (auto split: if_splits)
    with vx r2 show ?thesis by simp
  qed
qed

lemma read_members_nodes_step:
  assumes V: "\<And>cs v rest. read_value fuel cs = Some (v, rest) \<Longrightarrow>
            nodes v + length rest \<le> length cs"
    and M: "\<And>acc cs v rest. read_members fuel acc cs = Some (v, rest) \<Longrightarrow>
            \<exists>kvs. v = JObj kvs \<and>
              Suc (sum_list (map (\<lambda>kv. nodes (snd kv)) kvs) + length rest) \<le>
                sum_list (map (\<lambda>kv. nodes (snd kv)) acc) + length cs"
    and R: "read_members (Suc fuel) acc cs = Some (v, rest)"
  shows "\<exists>kvs. v = JObj kvs \<and>
           Suc (sum_list (map (\<lambda>kv. nodes (snd kv)) kvs) + length rest) \<le>
             sum_list (map (\<lambda>kv. nodes (snd kv)) acc) + length cs"
proof -
  from R obtain q r0 where q: "skip_ws cs = q # r0"
    by (auto split: list.splits)
  from skip_ws_Cons [OF q] have l0: "Suc (length r0) \<le> length cs" by simp
  from R q have qq: "q = CHR 0x22" by (auto split: if_splits)
  from R q qq obtain k r1 where k: "read_chars [] r0 = Some (k, r1)"
    by (auto split: option.splits)
  from read_chars_length [OF k] have l1: "Suc (length r1) \<le> length r0" by simp
  from R q qq k obtain colon r2 where c: "skip_ws r1 = colon # r2"
    by (auto split: list.splits)
  from skip_ws_Cons [OF c] have l2: "Suc (length r2) \<le> length r1" by simp
  from R q qq k c have cc: "colon = CHR '':''" by (auto split: if_splits)
  from R q qq k c cc obtain x r3 where x: "read_value fuel r2 = Some (x, r3)"
    by (auto split: option.splits)
  from V [OF x] have l3: "nodes x + length r3 \<le> length r2" .
  from R q qq k c cc x obtain d r4 where d: "skip_ws r3 = d # r4"
    by (auto split: list.splits)
  from skip_ws_Cons [OF d] have l4: "Suc (length r4) \<le> length r3" by simp
  note up = sum_nodes_update [of k x acc]
  show ?thesis
  proof (cases "d = CHR '',''")
    case True
    with R q qq k c cc x d
    have "read_members fuel (AList.update k x acc) r4 = Some (v, rest)" by simp
    from M [OF this] up l0 l1 l2 l3 l4 show ?thesis by auto
  next
    case False
    with R q qq k c cc x d have "v = JObj (AList.update k x acc)" "rest = r4"
      by (auto split: if_splits)
    with up l0 l1 l2 l3 l4 show ?thesis by simp
  qed
qed

lemma read_nodes:
  "(\<forall>cs v rest. read_value fuel cs = Some (v, rest) \<longrightarrow> nodes v + length rest \<le> length cs) \<and>
   (\<forall>acc cs v rest. read_elements fuel acc cs = Some (v, rest) \<longrightarrow>
      (\<exists>xs. v = JArr xs \<and>
         Suc (sum_list (map nodes xs) + length rest) \<le> sum_list (map nodes acc) + length cs)) \<and>
   (\<forall>acc cs v rest. read_members fuel acc cs = Some (v, rest) \<longrightarrow>
      (\<exists>kvs. v = JObj kvs \<and>
         Suc (sum_list (map (\<lambda>kv. nodes (snd kv)) kvs) + length rest) \<le>
           sum_list (map (\<lambda>kv. nodes (snd kv)) acc) + length cs))"
proof (induction fuel)
  case 0
  show ?case by simp
next
  case (Suc fuel)
  then have V: "\<And>cs v rest. read_value fuel cs = Some (v, rest) \<Longrightarrow>
            nodes v + length rest \<le> length cs"
    and E: "\<And>acc cs v rest. read_elements fuel acc cs = Some (v, rest) \<Longrightarrow>
            \<exists>xs. v = JArr xs \<and>
              Suc (sum_list (map nodes xs) + length rest) \<le> sum_list (map nodes acc) + length cs"
    and M: "\<And>acc cs v rest. read_members fuel acc cs = Some (v, rest) \<Longrightarrow>
            \<exists>kvs. v = JObj kvs \<and>
              Suc (sum_list (map (\<lambda>kv. nodes (snd kv)) kvs) + length rest) \<le>
                sum_list (map (\<lambda>kv. nodes (snd kv)) acc) + length cs"
    by blast+
  show ?case
    using read_value_nodes_step [OF E M] read_elements_nodes_step [OF V E]
      read_members_nodes_step [OF V M]
    by blast
qed

lemma read_json_nodes: "read_json s = Inr v \<Longrightarrow> nodes v \<le> length s"
proof -
  assume "read_json s = Inr v"
  then obtain rest where "read_value (Suc (length s)) s = Some (v, rest)"
    by (auto simp: read_json_def split: option.splits if_splits)
  with read_nodes [of "Suc (length s)"] have "nodes v + length rest \<le> length s"
    by blast
  then show ?thesis by simp
qed

section \<open>Properties of the evaluator\<close>

subsection \<open>Stripping the identifier\<close>

lemma strip_id_dict_changed:
  "length d \<noteq> used \<Longrightarrow> strip_id_dict used keys d = Inl RuntimeError"
  by (cases keys) simp_all

lemma strip_id_dict_no_id:
  "''id'' \<notin> set keys \<Longrightarrow> length d = used \<Longrightarrow> strip_id_dict used keys d = Inr d"
  by (induction keys) auto

lemma length_delete_less:
  "k \<in> fst ` set d \<Longrightarrow> length (AList.delete k d) < length d"
proof -
  assume "k \<in> fst ` set d"
  then obtain v where "(k, v) \<in> set d" by auto
  then show ?thesis
    unfolding AList.delete_eq by (rule length_filter_less) simp
qed

text \<open>
  Once the key is popped the dictionary is shorter, and the next request to the iterator,
  be it for a key or for the end, raises.
\<close>

lemma strip_id_dict_id:
  "''id'' \<in> set keys \<Longrightarrow> ''id'' \<in> fst ` set d \<Longrightarrow> length d = used \<Longrightarrow>
   strip_id_dict used keys d = Inl RuntimeError"
proof (induction keys)
  case Nil
  then show ?case by simp
next
  case (Cons key keys)
  show ?case
  proof (cases "key = ''id''")
    case True
    have "length (AList.delete ''id'' d) \<noteq> used"
      using length_delete_less [OF Cons.prems(2)] Cons.prems(3) by simp
    then have "strip_id_dict used keys (AList.delete ''id'' d) = Inl RuntimeError"
      by (rule strip_id_dict_changed)
    with True Cons.prems show ?thesis by (simp add: dict_pop_def)
  next
    case False
    with Cons show ?thesis by simp
  qed
qed

lemma strip_id_JObj:
  "strip_id (JObj d) = (if ''id'' \<in> fst ` set d then Inl RuntimeError else Inr (JObj d))"
proof (cases "''id'' \<in> fst ` set d")
  case True
  then have "''id'' \<in> set (map fst d)" by simp
  from strip_id_dict_id [OF this True refl] True show ?thesis by simp
next
  case False
  then have "''id'' \<notin> set (map fst d)" by simp
  from strip_id_dict_no_id [OF this refl] False show ?thesis by simp
qed

lemma strip_id_list_same: "strip_id_list keys xs = Inr xs' \<Longrightarrow> xs' = xs"
  by (induction keys) (auto split: if_splits)

text \<open>The loop never returns a changed annotation: it returns the one it got, or raises.\<close>

lemma strip_id_same: "strip_id v = Inr v' \<Longrightarrow> v' = v"
  by (cases v)
    (auto simp: strip_id_JObj dest: strip_id_list_same split: if_splits sum.splits
      simp del: strip_id.simps(1))

subsection \<open>The loops\<close>

lemma eval_tasks_append:
  "eval_tasks (xs @ ys) h =
     (case eval_tasks xs h of Inl e \<Rightarrow> Inl e | Inr h' \<Rightarrow> eval_tasks ys h')"
  by (induction xs arbitrary: h) (auto split: sum.splits)

lemma accuracies_Inr:
  "0 < n \<Longrightarrow> accuracies n h = Inr (map (\<lambda>(m, c). (m, of_nat c / of_nat n)) h)"
  by (induction h) auto

text \<open>
  Whatever the evaluator returns, each accuracy is the hit count over \<^verbatim>\<open>len(tasks)\<close>, the
  length of the argument as it was passed in.
\<close>

lemma evaluate_ner_quotients:
  assumes "count_hits loads tasks = Inr model_hits"
    and "evaluate_ner loads tasks = Inr model_acc"
  shows "model_acc = map (\<lambda>(m, c). (m, of_nat c / of_nat (len tasks))) model_hits"
proof (cases "len tasks = 0")
  case True
  with assms show ?thesis
    by (cases model_hits) (auto simp: evaluate_ner_def)
next
  case False
  then have "0 < len tasks" by simp
  from accuracies_Inr [OF this] assms show ?thesis
    by (simp add: evaluate_ner_def)
qed

subsection \<open>The keys of the output\<close>

lemma keys_hits_add: "fst ` set (hits_add k n h) \<subseteq> insert k (fst ` set h)"
  by (induction h) (auto split: if_splits, force+)

lemma keys_count_prediction:
  assumes "count_prediction a p h = Inr h'"
  shows "fst ` set h' \<subseteq> fst ` set h \<union> set (prediction_models [p])"
proof -
  from assms obtain m n where m: "getitem_str p ''model_version'' = Inr m"
    and h': "h' = hits_add m n h"
    by (auto simp: count_prediction_def split: sum.splits if_splits)
  from m have "prediction_models [p] = [m]"
    by (simp add: prediction_models_def)
  with keys_hits_add [of m n h] h' show ?thesis by auto
qed

lemma prediction_models_Cons:
  "prediction_models (p # ps) = prediction_models [p] @ prediction_models ps"
  by (simp add: prediction_models_def)

lemma keys_count_predictions:
  "count_predictions a ps h = Inr h' \<Longrightarrow>
   fst ` set h' \<subseteq> fst ` set h \<union> set (prediction_models ps)"
proof (induction ps arbitrary: h)
  case Nil
  then show ?case by simp
next
  case (Cons p ps)
  from Cons.prems obtain h1 where 1: "count_prediction a p h = Inr h1"
    and 2: "count_predictions a ps h1 = Inr h'"
    by (auto split: sum.splits)
  from keys_count_prediction [OF 1] Cons.IH [OF 2] show ?case
    by (subst prediction_models_Cons) (simp, blast)
qed

lemma keys_eval_task:
  "eval_task t h = Inr h' \<Longrightarrow> fst ` set h' \<subseteq> fst ` set h \<union> set (task_models t)"
  by (auto simp: eval_task_def task_models_def split: sum.splits dest!: keys_count_predictions)

lemma keys_eval_tasks:
  "eval_tasks ts h = Inr h' \<Longrightarrow> fst ` set h' \<subseteq> fst ` set h \<union> set (batch_models ts)"
proof (induction ts arbitrary: h)
  case Nil
  then show ?case by simp
next
  case (Cons t ts)
  from Cons.prems obtain h1 where 1: "eval_task t h = Inr h1"
    and 2: "eval_tasks ts h1 = Inr h'"
    by (auto split: sum.splits)
  have "batch_models (t # ts) = task_models t @ batch_models ts"
    by (simp add: batch_models_def)
  with keys_eval_task [OF 1] Cons.IH [OF 2] show ?case
    by (simp, blast)
qed

lemma keys_accuracies: "accuracies n h = Inr acc \<Longrightarrow> map fst acc = map fst h"
  by (induction h arbitrary: acc) (auto split: if_splits sum.splits)

lemma keys_evaluate_ner:
  assumes "json_loads loads tasks = Inr parsed"
    and "iter parsed = Inr ls_tasks"
    and "evaluate_ner loads tasks = Inr model_acc"
  shows "fst ` set model_acc \<subseteq> set (batch_models ls_tasks)"
proof -
  from assms obtain h where h: "eval_tasks ls_tasks [] = Inr h"
    and acc: "accuracies (len tasks) h = Inr model_acc"
    by (auto simp: evaluate_ner_def count_hits_def split: sum.splits)
  from keys_accuracies [OF acc] have "fst ` set model_acc = fst ` set h"
    by (metis set_map)
  with keys_eval_tasks [OF h] show ?thesis by simp
qed


lemma read_batch_docstring: "read_json batch_docstring = Inr (JArr [task_docstring])"
  by code_simp

text \<open>
  C7: a model identifier that no prediction of the batch carries is not a key of the
  mapping the evaluator returns, neither as the same value nor as one Python holds equal
  to it (\<^verbatim>\<open>m in model_acc\<close> compares with \<^verbatim>\<open>==\<close>).
\<close>

theorem evaluate_ner_absent_model:
  assumes "json_loads loads tasks = Inr parsed"
    and "iter parsed = Inr ls_tasks"
    and "evaluate_ner loads tasks = Inr model_acc"
  shows "(m \<notin> set (batch_models ls_tasks) \<longrightarrow> m \<notin> fst ` set model_acc) \<and>
         (list_all (\<lambda>m'. \<not> py_eq m' m) (batch_models ls_tasks) \<longrightarrow>
          list_all (\<lambda>kv. \<not> py_eq (fst kv) m) model_acc)"
  using keys_evaluate_ner [OF assms] by (auto simp: list_all_iff)

theorem evaluate_ner_absent_model_witness:
  "JStr ''other'' \<notin> set (batch_models [task_docstring]) \<and>
   evaluate_ner read_json (PyBytes batch_docstring) = Inr [(JStr ''dummy'', 1 / 208)] \<and>
   JStr ''other'' \<notin> fst ` set [(JStr ''dummy'', 1 / 208 :: rat)] \<and>
   list_all (\<lambda>kv. \<not> py_eq (fst kv) (JStr ''other'')) [(JStr ''dummy'', 1 / 208 :: rat)]"
proof -
  have 1: "json_loads read_json (PyBytes batch_docstring) = Inr (JArr [task_docstring])"
    by (simp add: read_batch_docstring)
  have 2: "iter (JArr [task_docstring]) = Inr [task_docstring]" by simp
  have 3: "evaluate_ner read_json (PyBytes batch_docstring) = Inr [(JStr ''dummy'', 1 / 208)]"
    by code_simp
  have 4: "batch_models [task_docstring] = [JStr ''dummy'']"
    by code_simp
  from evaluate_ner_absent_model [OF 1 2 3, of "JStr ''other''"] 3 4 show ?thesis
    by simp
qed

subsection \<open>Hit counts\<close>

lemma py_eq_refl_hashable: "hashable k \<Longrightarrow> py_eq k k"
  by (cases k) auto

text \<open>Adding 0 or 1 to the counter of \<open>k\<close> keeps every counter within the number of
  predictions seen for its key.\<close>

lemma bound_hits_add:
  assumes "\<forall>(k', c) \<in> set h. c \<le> length (filter (py_eq k') ms)"
    and "n \<le> 1" and "py_eq k k"
  shows "\<forall>(k', c) \<in> set (hits_add k n h). c \<le> length (filter (py_eq k') (ms @ [k]))"
  using assms(1)
proof (induction h)
  case Nil
  from assms(2,3) show ?case by simp
next
  case (Cons kc h)
  obtain k' c where kc: "kc = (k', c)" by (cases kc)
  from Cons.prems kc have c: "c \<le> length (filter (py_eq k') ms)"
    and rest: "\<forall>(k', c) \<in> set h. c \<le> length (filter (py_eq k') ms)"
    by auto
  show ?case
  proof (cases "py_eq k' k")
    case True
    from rest have "\<forall>(k', c) \<in> set h. c \<le> length (filter (py_eq k') (ms @ [k]))"
      by (auto intro: le_trans)
    with True c assms(2) kc show ?thesis by simp
  next
    case False
    with Cons.IH [OF rest] c kc show ?thesis by simp
  qed
qed

lemma bound_count_prediction:
  assumes "count_prediction a p h = Inr h'"
    and "\<forall>(k', c) \<in> set h. c \<le> length (filter (py_eq k') ms)"
  shows "\<forall>(k', c) \<in> set h'. c \<le> length (filter (py_eq k') (ms @ prediction_models [p]))"
proof -
  from assms(1) obtain m n where m: "getitem_str p ''model_version'' = Inr m"
    and hm: "hashable m" and n: "n \<le> 1" and h': "h' = hits_add m n h"
    by (auto simp: count_prediction_def split: sum.splits if_splits)
  from m have "prediction_models [p] = [m]"
    by (simp add: prediction_models_def)
  with bound_hits_add [OF assms(2) n py_eq_refl_hashable [OF hm]] h' show ?thesis by simp
qed

lemma bound_count_predictions:
  "count_predictions a ps h = Inr h' \<Longrightarrow>
   \<forall>(k', c) \<in> set h. c \<le> length (filter (py_eq k') ms) \<Longrightarrow>
   \<forall>(k', c) \<in> set h'. c \<le> length (filter (py_eq k') (ms @ prediction_models ps))"
proof (induction ps arbitrary: h ms)
  case Nil
  then show ?case by (simp add: prediction_models_def)
next
  case (Cons p ps)
  from Cons.prems(1) obtain h1 where 1: "count_prediction a p h = Inr h1"
    and 2: "count_predictions a ps h1 = Inr h'"
    by (auto split: sum.splits)
  from Cons.IH [OF 2 bound_count_prediction [OF 1 Cons.prems(2)]]
  show ?case by (subst prediction_models_Cons) simp
qed

lemma bound_eval_task:
  assumes "eval_task t h = Inr h'"
    and "\<forall>(k', c) \<in> set h. c \<le> length (filter (py_eq k') ms)"
  shows "\<forall>(k', c) \<in> set h'. c \<le> length (filter (py_eq k') (ms @ task_models t))"
proof -
  from assms(1) obtain a predictions ps where
    "getitem_str t ''predictions'' = Inr predictions" "iter predictions = Inr ps"
    "count_predictions a ps h = Inr h'"
    by (auto simp: eval_task_def split: sum.splits)
  with bound_count_predictions [OF _ assms(2), of a ps h'] show ?thesis
    by (simp add: task_models_def)
qed

lemma bound_eval_tasks:
  "eval_tasks ts h = Inr h' \<Longrightarrow>
   \<forall>(k', c) \<in> set h. c \<le> length (filter (py_eq k') ms) \<Longrightarrow>
   \<forall>(k', c) \<in> set h'. c \<le> length (filter (py_eq k') (ms @ batch_models ts))"
proof (induction ts arbitrary: h ms)
  case Nil
  then show ?case by (simp add: batch_models_def)
next
  case (Cons t ts)
  from Cons.prems(1) obtain h1 where 1: "eval_task t h = Inr h1"
    and 2: "eval_tasks ts h1 = Inr h'"
    by (auto split: sum.splits)
  have "batch_models (t # ts) = task_models t @ batch_models ts"
    by (simp add: batch_models_def)
  with Cons.IH [OF 2 bound_eval_task [OF 1 Cons.prems(2)]]
  show ?case by simp
qed

lemma bound_count_hits:
  assumes "json_loads loads tasks = Inr parsed"
    and "iter parsed = Inr ls_tasks"
    and "count_hits loads tasks = Inr model_hits"
    and "(m, c) \<in> set model_hits"
  shows "c \<le> length (filter (py_eq m) (batch_models ls_tasks))"
proof -
  from assms(1-3) have "eval_tasks ls_tasks [] = Inr model_hits"
    by (simp add: count_hits_def)
  from bound_eval_tasks [OF this, of "[]"] assms(4) show ?thesis by auto
qed

lemma read_batch_two_predictions:
  "read_json batch_two_predictions = Inr (JArr [task_two_predictions])"
  by code_simp

lemma length_le_sum_nodes: "length xs \<le> sum_list (map nodes xs)"
proof (induction xs)
  case Nil
  show ?case by simp
next
  case (Cons x xs)
  with nodes_pos [of x] show ?case by simp
qed

lemma length_prediction_models: "length (prediction_models ps) \<le> length ps"
  by (induction ps) (auto simp: prediction_models_def split: sum.splits)

lemma prediction_models_strings:
  "prediction_models (map (\<lambda>x. JStr (f x)) xs) = []"
  by (induction xs) (auto simp: prediction_models_def)

lemma predictions_nodes:
  "iter predictions = Inr ps \<Longrightarrow> length (prediction_models ps) \<le> nodes predictions"
proof (cases predictions)
  case (JArr xs)
  assume "iter predictions = Inr ps"
  with JArr have "ps = xs" by simp
  with JArr length_prediction_models [of xs] length_le_sum_nodes [of xs]
  show ?thesis by simp
qed (auto simp: prediction_models_strings)

lemma map_of_nodes:
  "map_of kvs k = Some v \<Longrightarrow> nodes v \<le> sum_list (map (\<lambda>kv. nodes (snd kv)) kvs)"
  by (induction kvs) (auto split: if_splits)

lemma task_models_nodes: "length (task_models t) \<le> nodes t"
proof (cases t)
  case (JObj kvs)
  show ?thesis
  proof (cases "map_of kvs ''predictions''")
    case None
    with JObj show ?thesis by (simp add: task_models_def)
  next
    case (Some predictions)
    show ?thesis
    proof (cases "iter predictions")
      case (Inl e)
      with JObj Some show ?thesis by (simp add: task_models_def)
    next
      case (Inr ps)
      from predictions_nodes [OF Inr] map_of_nodes [OF Some] JObj Some Inr
      show ?thesis by (simp add: task_models_def)
    qed
  qed
qed (simp_all add: task_models_def)

lemma batch_models_sum_nodes: "length (batch_models ts) \<le> sum_list (map nodes ts)"
proof (induction ts)
  case Nil
  show ?case by (simp add: batch_models_def)
next
  case (Cons t ts)
  have "batch_models (t # ts) = task_models t @ batch_models ts"
    by (simp add: batch_models_def)
  with Cons task_models_nodes [of t] show ?case by simp
qed

lemma batch_models_strings: "batch_models (map (\<lambda>x. JStr (f x)) xs) = []"
  by (induction xs) (auto simp: batch_models_def task_models_def)

lemma batch_models_nodes:
  "iter parsed = Inr ls_tasks \<Longrightarrow> length (batch_models ls_tasks) \<le> nodes parsed"
proof (cases parsed)
  case (JArr xs)
  assume "iter parsed = Inr ls_tasks"
  with JArr have "ls_tasks = xs" by simp
  with JArr batch_models_sum_nodes [of xs] show ?thesis by simp
qed (auto simp: batch_models_strings)

text \<open>
  With a reader that returns no more values than the text has bytes, the batch has no
  more predictions than \<^verbatim>\<open>len(tasks)\<close> counts.
\<close>

lemma batch_models_len:
  assumes "\<forall>s v. loads s = Inr v \<longrightarrow> nodes v \<le> length s"
    and "json_loads loads tasks = Inr parsed"
    and "iter parsed = Inr ls_tasks"
  shows "length (batch_models ls_tasks) \<le> len tasks"
proof (cases tasks)
  case (PyBytes s)
  with assms(1,2) have "nodes parsed \<le> length s" by simp
  with batch_models_nodes [OF assms(3)] PyBytes show ?thesis by simp
next
  case (PyList xs)
  with assms(2) show ?thesis by simp
qed

lemma accuracy_unit_interval:
  assumes "\<forall>s v. loads s = Inr v \<longrightarrow> nodes v \<le> length s"
    and "json_loads loads tasks = Inr parsed"
    and "iter parsed = Inr ls_tasks"
    and "count_hits loads tasks = Inr model_hits"
    and "evaluate_ner loads tasks = Inr model_acc"
    and "(m, a) \<in> set model_acc"
  shows "0 \<le> a \<and> a \<le> 1"
proof -
  have acc: "model_acc = map (\<lambda>(m, c). (m, of_nat c / of_nat (len tasks))) model_hits"
    using evaluate_ner_quotients [OF assms(4,5)] .
  with assms(6) obtain c where c: "(m, c) \<in> set model_hits"
    and a: "a = of_nat c / of_nat (len tasks)"
    by auto
  have "c \<le> length (filter (py_eq m) (batch_models ls_tasks))"
    using bound_count_hits [OF assms(2-4) c] .
  also have "\<dots> \<le> length (batch_models ls_tasks)" by (rule length_filter_le)
  also have "\<dots> \<le> len tasks" using batch_models_len [OF assms(1-3)] .
  finally have "c \<le> len tasks" .
  then have "a \<le> 1"
    unfolding a by (cases "len tasks = 0") (simp_all add: divide_le_eq_1)
  moreover have "0 \<le> a" unfolding a by simp
  ultimately show ?thesis by simp
qed

text \<open>For the reader of this file, on every text.\<close>

lemma accuracy_unit_interval_read_json:
  assumes "evaluate_ner read_json tasks = Inr model_acc" and "(m, a) \<in> set model_acc"
  shows "0 \<le> a \<and> a \<le> 1"
proof -
  from assms(1) obtain parsed ls_tasks model_hits where
    "json_loads read_json tasks = Inr parsed" "iter parsed = Inr ls_tasks"
    "count_hits read_json tasks = Inr model_hits"
    by (auto simp: evaluate_ner_def count_hits_def split: sum.splits)
  moreover have "\<forall>s v. read_json s = Inr v \<longrightarrow> nodes v \<le> length s"
    using read_json_nodes by blast
  ultimately show ?thesis
    using accuracy_unit_interval [OF _ _ _ _ assms] by blast
qed


text \<open>
  C8, as the code has it: the counter of a model is at most the number of predictions of
  the batch that carry its identifier, which is more than the size of the batch when a
  task has several predictions of one model; and every accuracy lies between 0 and 1.
  The reader is any \<open>loads\<close> that returns no more values than the text has bytes, as a
  reader of JSON texts does and as \<open>read_json\<close> is proved to do.
\<close>

theorem evaluate_ner_hits_bound:
  assumes "\<forall>s v. loads s = Inr v \<longrightarrow> nodes v \<le> length s"
    and "json_loads loads tasks = Inr parsed"
    and "iter parsed = Inr ls_tasks"
    and "count_hits loads tasks = Inr model_hits"
    and "evaluate_ner loads tasks = Inr model_acc"
  shows "list_all (\<lambda>(m, c). c \<le> length (filter (py_eq m) (batch_models ls_tasks))) model_hits \<and>
         list_all (\<lambda>(m, a). 0 \<le> a \<and> a \<le> 1) model_acc"
  using bound_count_hits [OF assms(2-4)] accuracy_unit_interval [OF assms]
  by (auto simp: list_all_iff)

theorem evaluate_ner_hits_bound_witness:
  "count_hits read_json (PyBytes batch_two_predictions) = Inr [(JStr ''m1'', 2)] \<and>
   evaluate_ner read_json (PyBytes batch_two_predictions) = Inr [(JStr ''m1'', 2 / 241)] \<and>
   (2::nat) \<le> length (filter (py_eq (JStr ''m1'')) (batch_models [task_two_predictions])) \<and>
   (0::rat) \<le> 2 / 241 \<and> (2::rat) / 241 \<le> 1"
proof -
  have 0: "\<forall>s v. read_json s = Inr v \<longrightarrow> nodes v \<le> length s"
    using read_json_nodes by blast
  have 1: "json_loads read_json (PyBytes batch_two_predictions) = Inr (JArr [task_two_predictions])"
    by (simp add: read_batch_two_predictions)
  have 2: "iter (JArr [task_two_predictions]) = Inr [task_two_predictions]" by simp
  have 3: "count_hits read_json (PyBytes batch_two_predictions) = Inr [(JStr ''m1'', 2)]"
    by code_simp
  have 4: "evaluate_ner read_json (PyBytes batch_two_predictions) = Inr [(JStr ''m1'', 2 / 241)]"
    by code_simp
  from evaluate_ner_hits_bound [OF 0 1 2 3 4] 3 4 show ?thesis
    by simp
qed

text \<open>
  The claim of C8 fails on a batch of one task with two predictions of one model, both
  equal to the annotation: the model has two hits and the batch one task.
\<close>

theorem evaluate_ner_hits_exceed_batch:
  "map_sum id (\<lambda>parsed. map_sum id length (iter parsed)) (read_json batch_two_predictions) =
     Inr (Inr 1) \<and>
   count_hits read_json (PyBytes batch_two_predictions) = Inr [(JStr ''m1'', 2)]"
  by code_simp

subsection \<open>A prediction that does not match\<close>

lemma hits_of_add_zero: "hits_of k (hits_add m 0 h) = hits_of k h"
  by (induction h) auto

text \<open>
  C5, as the code has it: a prediction whose \<^verbatim>\<open>"result"\<close> is there and differs from the
  accepted annotation adds 0 to the counter of its model, so every counter reads as
  before, and the loop goes on with the next prediction; a prediction whose
  \<^verbatim>\<open>"result"\<close> cannot be read raises (a KeyError when the key is missing), and the
  evaluation ends there.
\<close>

theorem count_prediction_mismatch:
  assumes "getitem_str prediction ''model_version'' = Inr m"
    and "hashable m"
  shows "(getitem_str prediction ''result'' = Inr r \<and> \<not> py_eq r annotation_result \<longrightarrow>
            count_prediction annotation_result prediction model_hits = Inr (hits_add m 0 model_hits) \<and>
            hits_of k (hits_add m 0 model_hits) = hits_of k model_hits \<and>
            count_predictions annotation_result (prediction # rest) model_hits =
              count_predictions annotation_result rest (hits_add m 0 model_hits)) \<and>
         (getitem_str prediction ''result'' = Inl e \<longrightarrow>
            count_prediction annotation_result prediction model_hits = Inl e \<and>
            count_predictions annotation_result (prediction # rest) model_hits = Inl e)"
  using assms by (simp add: count_prediction_def hits_of_add_zero)

theorem count_prediction_mismatch_witness:
  "count_prediction (JObj [(''start'', JInt 0)])
     (JObj [(''result'', JNull), (''model_version'', JStr ''m1'')]) [(JStr ''m1'', 3)] =
     Inr [(JStr ''m1'', 3)] \<and>
   count_prediction (JObj [(''start'', JInt 0)])
     (JObj [(''model_version'', JStr ''m1'')]) [(JStr ''m1'', 3)] = Inl KeyError"
proof -
  let ?a = "JObj [(''start'', JInt 0)]"
  let ?p = "JObj [(''result'', JNull), (''model_version'', JStr ''m1'')]"
  let ?q = "JObj [(''model_version'', JStr ''m1'')]"
  have p: "getitem_str ?p ''model_version'' = Inr (JStr ''m1'')" by simp
  have q: "getitem_str ?q ''model_version'' = Inr (JStr ''m1'')" by simp
  have h: "hashable (JStr ''m1'')" by simp
  from count_prediction_mismatch [OF p h, of JNull ?a "[(JStr ''m1'', 3)]" "JStr ''m1''" "[]" KeyError]
    count_prediction_mismatch [OF q h, of JNull ?a "[(JStr ''m1'', 3)]" "JStr ''m1''" "[]" KeyError]
  show ?thesis by simp
qed

text \<open>
  The claim of C5 fails on a prediction with no \<^verbatim>\<open>"result"\<close>: the evaluator raises a
  KeyError.
\<close>

theorem evaluate_ner_missing_payload_raises:
  "evaluate_ner read_json (PyBytes batch_prediction_without_result) = Inl KeyError"
  by code_simp

subsection \<open>The empty batch\<close>

text \<open>
  C3, as the code has it: on the empty batch the evaluator returns the empty mapping and
  raises nothing. The division runs once for each model that has a counter, and an empty
  batch leaves no counter; the denominator is the length of the text, which is not zero
  for a text that reads as \<^verbatim>\<open>[]\<close>. Given the empty Python list instead of a text,
  \<^verbatim>\<open>json.loads\<close> raises a TypeError before any division.
\<close>

theorem evaluate_ner_empty_batch:
  "loads raw = Inr (JArr []) \<Longrightarrow>
   evaluate_ner loads (PyBytes raw) = Inr [] \<and> evaluate_ner loads (PyList []) = Inl TypeError"
  by (simp add: evaluate_ner_def count_hits_def)

theorem evaluate_ner_empty_batch_witness:
  "read_json ''[]'' = Inr (JArr []) \<and> evaluate_ner read_json (PyBytes ''[]'') = Inr [] \<and>
   evaluate_ner read_json (PyList []) = Inl TypeError"
proof -
  have h: "read_json ''[]'' = Inr (JArr [])" by code_simp
  from evaluate_ner_empty_batch [of read_json "''[]''"] h show ?thesis by simp
qed

text \<open>The claim of C3 fails on the text \<^verbatim>\<open>[]\<close>: the result is a mapping, not an error.\<close>

theorem evaluate_ner_empty_batch_no_fault:
  "evaluate_ner read_json (PyBytes ''[]'') = Inr []"
  by code_simp

subsection \<open>The denominator\<close>

text \<open>
  C1 on the docstring's example: the batch has one task and the model \<^verbatim>\<open>dummy\<close> one hit,
  so the accuracy of the claim is 1; the code divides by \<^verbatim>\<open>len(tasks)\<close>, the 208 bytes of
  the text, and returns 1/208. Given the task in a Python list, as the docstring has it,
  \<^verbatim>\<open>json.loads\<close> raises a TypeError.
\<close>

theorem evaluate_ner_docstring_example:
  "length batch_docstring = 208 \<and>
   map_sum id (\<lambda>parsed. map_sum id length (iter parsed)) (read_json batch_docstring) = Inr (Inr 1) \<and>
   count_hits read_json (PyBytes batch_docstring) = Inr [(JStr ''dummy'', 1)] \<and>
   evaluate_ner read_json (PyBytes batch_docstring) = Inr [(JStr ''dummy'', 1 / 208)] \<and>
   evaluate_ner read_json (PyList [task_docstring]) = Inl TypeError"
  by code_simp

subsection \<open>An annotation with an identifier\<close>

text \<open>
  C4 on a task whose accepted annotation has the key \<^verbatim>\<open>"id"\<close>: the loop pops the key
  while it iterates over the dictionary, and the evaluator ends with a RuntimeError.
\<close>

theorem evaluate_ner_id_field_raises:
  "evaluate_ner read_json (PyBytes batch_with_id) = Inl RuntimeError"
  by code_simp

subsection \<open>A task with no accepted result\<close>

lemma eval_task_empty_result:
  "getitem_str t ''result'' = Inr (JArr []) \<Longrightarrow> eval_task t h = Inl IndexError"
  by (simp add: eval_task_def)

lemma eval_tasks_empty_result:
  assumes "getitem_str t ''result'' = Inr (JArr [])"
  shows "\<exists>e. eval_tasks (before @ t # after) h = Inl e"
    and "eval_tasks before h = Inr h' \<Longrightarrow> eval_tasks (before @ t # after) h = Inl IndexError"
  using eval_task_empty_result [OF assms]
  by (auto simp: eval_tasks_append split: sum.splits)

text \<open>
  C10: a task whose \<^verbatim>\<open>"result"\<close> list is empty makes the evaluator raise instead of
  returning a mapping, wherever the task stands in the batch; when the tasks before it are
  read without an exception, what it raises is the IndexError of \<^verbatim>\<open>ls_task["result"][0]\<close>.
\<close>

theorem evaluate_ner_empty_result:
  assumes "json_loads loads tasks = Inr parsed"
    and "iter parsed = Inr (before @ t # after)"
    and "getitem_str t ''result'' = Inr (JArr [])"
  shows "(\<exists>e. evaluate_ner loads tasks = Inl e) \<and>
         (\<forall>h. eval_tasks before [] = Inr h \<longrightarrow> evaluate_ner loads tasks = Inl IndexError)"
  using assms(1,2) eval_tasks_empty_result [OF assms(3), where before = before and after = after and h = "[]"]
  by (auto simp: evaluate_ner_def count_hits_def)

theorem evaluate_ner_empty_result_witness:
  "evaluate_ner read_json (PyBytes batch_empty_result) = Inl IndexError"
proof -
  let ?t = "JObj [(''result'', JArr []), (''predictions'', JArr [])]"
  have 1: "json_loads read_json (PyBytes batch_empty_result) = Inr (JArr [?t])"
    by code_simp
  have 2: "iter (JArr [?t]) = Inr ([] @ ?t # [])" by simp
  have 3: "getitem_str ?t ''result'' = Inr (JArr [])" by simp
  from evaluate_ner_empty_result [OF 1 2 3] show ?thesis by simp
qed

section \<open>Properties of the formatter\<close>

text \<open>Where the code reads a value, the specification's reading of it is the same value.\<close>

lemma field_Inr: "getitem_str obj k = Inr v \<Longrightarrow> field obj k = v"
  by (simp add: field_def)

lemma elements_Inr: "iter v = Inr xs \<Longrightarrow> elements v = xs"
  by (simp add: elements_def)

lemma entity_Inr:
  "entity ent label = Inr t \<Longrightarrow>
   t = JArr [field (field ent ''value'') ''start'', field (field ent ''value'') ''end'', label]"
  by (auto simp: entity_def field_def split: sum.splits)

lemma label_entities_Inr:
  "label_entities ent labels = Inr ts \<Longrightarrow>
   ts = map (\<lambda>label. JArr [field (field ent ''value'') ''start'',
                            field (field ent ''value'') ''end'', label]) labels"
proof (induction labels arbitrary: ts)
  case Nil
  then show ?case by simp
next
  case (Cons label labels)
  from Cons.prems obtain t ts' where t: "entity ent label = Inr t"
    and ts': "label_entities ent labels = Inr ts'" and ts: "ts = t # ts'"
    by (auto split: sum.splits)
  from entity_Inr [OF t] Cons.IH [OF ts'] ts show ?case by simp
qed

lemma ent_entities_Inr: "ent_entities ent = Inr ts \<Longrightarrow> entry_spans ent = ts"
  by (auto simp: ent_entities_def entry_spans_def field_def elements_def
      split: sum.splits dest!: label_entities_Inr)

lemma result_entities_Inr:
  "result_entities ents = Inr ts \<Longrightarrow> concat (map entry_spans ents) = ts"
proof (induction ents arbitrary: ts)
  case Nil
  then show ?case by simp
next
  case (Cons ent ents)
  from Cons.prems obtain t1 t2 where 1: "ent_entities ent = Inr t1"
    and 2: "result_entities ents = Inr t2" and ts: "ts = t1 @ t2"
    by (auto split: sum.splits)
  from ent_entities_Inr [OF 1] Cons.IH [OF 2] ts show ?case by simp
qed

lemma task_entities_Inr: "task_entities t = Inr entities \<Longrightarrow> accepted_spans t = entities"
  by (auto simp: task_entities_def accepted_spans_def field_def elements_def
      split: sum.splits dest!: result_entities_Inr)

lemma task_text_Inr:
  "task_text t = Inr text \<Longrightarrow> field (field (field t ''task'') ''data'') ''text'' = text"
  by (auto simp: task_text_def field_def split: sum.splits)

lemma training_pairs_Cons:
  "training_pairs (t # ts) =
     (if accepted_spans t \<noteq> [] then training_pair t # training_pairs ts else training_pairs ts)"
  by (simp add: training_pairs_def)

lemma format_loop_Inr:
  "format_loop ts train_data = Inr out \<Longrightarrow> out = train_data @ training_pairs ts"
proof (induction ts arbitrary: train_data)
  case Nil
  then show ?case by (simp add: training_pairs_def)
next
  case (Cons t ts)
  from Cons.prems obtain entities where e: "task_entities t = Inr entities"
    by (auto split: sum.splits)
  note spans = task_entities_Inr [OF e]
  show ?case
  proof (cases "entities = []")
    case True
    with Cons.prems e have "format_loop ts train_data = Inr out" by simp
    from Cons.IH [OF this] True spans show ?thesis
      by (simp add: training_pairs_Cons)
  next
    case False
    with Cons.prems e obtain body where x: "task_text t = Inr body"
      and loop: "format_loop ts (train_data @ [JArr [body, JObj [(''entities'', JArr entities)]]]) = Inr out"
      by (auto split: sum.splits)
    from task_text_Inr [OF x] spans
    have "training_pair t = JArr [body, JObj [(''entities'', JArr entities)]]"
      by (simp add: training_pair_def)
    with Cons.IH [OF loop] False spans show ?thesis
      by (simp add: training_pairs_Cons)
  qed
qed

lemma format_loop_readable:
  "list_all readable_task ts \<Longrightarrow> \<exists>out. format_loop ts train_data = Inr out"
proof (induction ts arbitrary: train_data)
  case Nil
  then show ?case by simp
next
  case (Cons t ts)
  from Cons.prems have t: "readable_task t" and ts: "list_all readable_task ts"
    by simp_all
  from t Cons.IH [OF ts] show ?case
    by (auto simp: readable_task_def split: sum.splits)
qed

lemma format_loop_Inr_readable:
  "format_loop ts train_data = Inr out \<Longrightarrow> list_all readable_task ts"
  by (induction ts arbitrary: train_data)
    (auto simp: readable_task_def split: sum.splits if_splits)


text \<open>
  C6: the training data is the list of the tasks that have at least one accepted span,
  in their order, each as the pair of its text and its spans; a task with no span is
  left out without an exception (its text is not even read). The formatter returns this
  list exactly when it can read every task, and then \<^verbatim>\<open>json.dumps\<close> is applied to it. A
  span is a triple of an entry's start, end and one of its labels, so an entry with two
  labels gives two spans and an entry with no label gives none.
\<close>

theorem train_data_of_training_pairs:
  assumes "loads tasks = Inr parsed" and "iter parsed = Inr ls_tasks"
  shows "(train_data_of loads tasks = Inr train_data \<longrightarrow>
            train_data = training_pairs ls_tasks \<and> list_all readable_task ls_tasks) \<and>
         (list_all readable_task ls_tasks \<longrightarrow>
            train_data_of loads tasks = Inr (training_pairs ls_tasks) \<and>
            format_tasks_for_train loads dumps tasks = Inr (dumps (JArr (training_pairs ls_tasks))))"
proof -
  have td: "train_data_of loads tasks = format_loop ls_tasks []"
    using assms by (simp add: train_data_of_def)
  have 1: "train_data = training_pairs ls_tasks \<and> list_all readable_task ls_tasks"
    if "train_data_of loads tasks = Inr train_data"
    using that format_loop_Inr [of ls_tasks "[]" train_data]
      format_loop_Inr_readable [of ls_tasks "[]" train_data]
    by (simp add: td)
  have 2: "train_data_of loads tasks = Inr (training_pairs ls_tasks)"
    if "list_all readable_task ls_tasks"
  proof -
    from format_loop_readable [OF that, of "[]"] obtain out
      where out: "format_loop ls_tasks [] = Inr out" by blast
    from format_loop_Inr [OF out] out show ?thesis by (simp add: td)
  qed
  from 1 2 show ?thesis by (simp add: format_tasks_for_train_def)
qed

lemma read_batch_for_training: "read_json batch_for_training = Inr (JArr tasks_for_training)"
  by code_simp

theorem train_data_of_training_pairs_witness:
  "list_all readable_task tasks_for_training \<and>
   train_data_of read_json batch_for_training =
     Inr [JArr [JStr ''I live in Chennai'',
                JObj [(''entities'',
                       JArr [JArr [JInt 10, JInt 17, JStr ''LOC''],
                             JArr [JInt 10, JInt 17, JStr ''GPE'']])]]] \<and>
   format_tasks_for_train read_json write_json batch_for_training =
     Inr ''[[\"I live in Chennai\", {\"entities\": [[10, 17, \"LOC\"], [10, 17, \"GPE\"]]}]]''"
proof -
  have 1: "iter (JArr tasks_for_training) = Inr tasks_for_training" by simp
  have 2: "list_all readable_task tasks_for_training" by code_simp
  have 3: "training_pairs tasks_for_training =
     [JArr [JStr ''I live in Chennai'',
            JObj [(''entities'',
                   JArr [JArr [JInt 10, JInt 17, JStr ''LOC''],
                         JArr [JInt 10, JInt 17, JStr ''GPE'']])]]]"
    by code_simp
  have 4: "write_json (JArr (training_pairs tasks_for_training)) =
     ''[[\"I live in Chennai\", {\"entities\": [[10, 17, \"LOC\"], [10, 17, \"GPE\"]]}]]''"
    unfolding 3 by code_simp
  from train_data_of_training_pairs
      [where loads = read_json and tasks = batch_for_training and dumps = write_json
         and train_data = "training_pairs tasks_for_training", OF read_batch_for_training 1]
    2 3 4
  show ?thesis by simp
qed

section \<open>Properties of the model loader and of the gate\<close>

text \<open>
  C9: with \<^verbatim>\<open>from_gcs=True\<close> the function never returns a model. Once the folder is
  made, the download has given a path and the model at that path is loaded, the load after
  the \<^verbatim>\<open>if\<close> reads \<^verbatim>\<open>model_name\<close>, which only the other branch assigns, and the call
  ends with an UnboundLocalError; an exception of a collaborator ends the call earlier.
\<close>

theorem load_model_from_gcs:
  "(\<exists>e. load_model env lang True gcs_bucket gcs_source_blob_name = Inl e) \<and>
   (mkdir env ''tmp'' = Inr u \<and>
    download_from_gcs env gcs_bucket gcs_source_blob_name ''tmp'' = Inr (output_filename # others) \<and>
    spacy_load env output_filename = Inr nlp \<longrightarrow>
    load_model env lang True gcs_bucket gcs_source_blob_name = Inl UnboundLocalError)"
  by (auto simp: load_model_def load_model_branch_def split: sum.splits list.splits)

theorem load_model_from_gcs_witness:
  "load_model env_ok ''en'' True ''wcgl_data'' ''model'' = Inl UnboundLocalError"
proof -
  have "mkdir env_ok ''tmp'' = Inr () \<and>
    download_from_gcs env_ok ''wcgl_data'' ''model'' ''tmp'' = Inr (''tmp/model'' # []) \<and>
    spacy_load env_ok ''tmp/model'' = Inr ''tmp/model''"
    by (simp add: env_ok_def)
  with load_model_from_gcs [of env_ok "''en''" "''wcgl_data''" "''model''" "()" "''tmp/model''" "[]" "''tmp/model''"]
  show ?thesis by simp
qed







text \<open>The function as written, on the empty batch: accuracy 0.5, one training.\<close>

lemma train_model_if_necessary_empty_batch:
  "train_model_if_necessary env_ok read_json write_json ''[]'' =
     ([CallFormat ''[]'', CallLoadModel ''en'' False [] [],
       CallTrainModel ''[]'' ''en_core_web_sm'' 30], Inr ())"
  by code_simp

end
